theory Spec2Isabelle
  imports Complex_Main "HOL-Library.AList"
begin

section \<open>The presence hub of main.go\<close>

text \<open>
  The server keeps one \<open>Hub\<close>: the set of registered clients and the last location of
  every user. One goroutine runs \<open>Hub.run\<close>, a loop that selects over three unbuffered
  channels (register, unregister, broadcast). Every connection runs two more goroutines,
  \<open>readPump\<close> and \<open>writePump\<close>. The model below is sequential: a function per source
  function, on an explicit state, with a run-time panic as an error value. What the
  goroutines contribute is written out where the source depends on it:
  \<^item> a send inside \<open>select ... default\<close> is a total function with three outcomes;
  \<^item> whether the goroutine of \<open>Hub.run\<close> is waiting in its \<open>select\<close> at the moment of
    a send on the unbuffered broadcast channel is an argument (\<open>parked\<close>) of the sender;
  \<^item> a case body of \<open>Hub.run\<close>, a call of \<open>updateLocation\<close> together with the
    broadcast it hands over, and a receive of \<open>writePump\<close> are each one step. The hub's
    mutex keeps the two maps from being read half-written; it has no other effect here.
\<close>

subsection \<open>Messages\<close>

text \<open>
  \<open>LocationData\<close>. The two \<open>float64\<close> fields are only stored and copied, never computed
  with; they are modelled by the real number they denote. \<open>Timestamp\<close> is an \<open>int64\<close>
  that is only stored and copied as well.
\<close>

record LocationData =
  Username :: string
  Latitude :: real
  Longitude :: real
  Timestamp :: int

text \<open>
  The values the server puts into \<open>Message.Data\<close> (an \<open>interface{}\<close>):
  a \<open>map[string]string\<close> with the keys username and message, a \<open>LocationData\<close>, or the
  \<open>map[string]LocationData\<close> of the hub.
\<close>

datatype payload =
  Notice string string
| Location LocationData
| Locations "(string \<times> LocationData) list"

record Message =
  Type :: string
  Data :: payload

text \<open>
  A serialised message. \<open>json.Marshal\<close> belongs to the standard library; it cannot fail
  on the three payloads above, and its output is represented by the message it encodes.
\<close>

datatype bytes = Json Message

definition marshal :: "Message \<Rightarrow> bytes" where
  "marshal message = Json message"

text \<open>
  The text the server appends to a user name in its two notices, as the UTF-8 bytes of
  the source's string literals.
\<close>

definition connected_suffix :: string where
  "connected_suffix =
     map char_of [0x20, 0xE3, 0x81, 0x8C, 0xE6, 0x8E, 0xA5, 0xE7, 0xB6, 0x9A, 0xE3, 0x81,
       0x97, 0xE3, 0x81, 0xBE, 0xE3, 0x81, 0x97, 0xE3, 0x81, 0x9F :: nat]"

definition disconnected_suffix :: string where
  "disconnected_suffix =
     map char_of [0x20, 0xE3, 0x81, 0x8C, 0xE5, 0x88, 0x87, 0xE6, 0x96, 0xAD, 0xE3, 0x81,
       0x97, 0xE3, 0x81, 0xBE, 0xE3, 0x81, 0x97, 0xE3, 0x81, 0x9F :: nat]"

definition user_connected :: "string \<Rightarrow> Message" where
  "user_connected username =
     \<lparr>Type = ''user_connected'', Data = Notice username (username @ connected_suffix)\<rparr>"

definition user_disconnected :: "string \<Rightarrow> Message" where
  "user_disconnected username =
     \<lparr>Type = ''user_disconnected'', Data = Notice username (username @ disconnected_suffix)\<rparr>"

definition location_update :: "LocationData \<Rightarrow> Message" where
  "location_update location = \<lparr>Type = ''location_update'', Data = Location location\<rparr>"

definition current_locations :: "(string \<times> LocationData) list \<Rightarrow> Message" where
  "current_locations locs = \<lparr>Type = ''current_locations'', Data = Locations locs\<rparr>"

subsection \<open>Buffered channels\<close>

text \<open>
  \<open>Client.Send\<close> is a buffered channel (\<open>make(chan []byte, 256)\<close>): the values waiting
  in it, its capacity, and whether it has been closed. A consumer that waits on the
  channel has emptied the buffer, so a send finds room exactly when the buffer is not
  full.
\<close>

record 'a chan =
  buf :: "'a list"
  capacity :: nat
  is_closed :: bool

definition make_chan :: "nat \<Rightarrow> 'a chan" where
  "make_chan n = \<lparr>buf = [], capacity = n, is_closed = False\<rparr>"

datatype error = Panic string

text \<open>
  \<open>select { case ch <- v: ... default: ... }\<close>: a send on a closed channel panics, a
  send that finds room enqueues, otherwise the default branch runs.
\<close>

datatype 'a select_send = Sent "'a chan" | Default | SendOnClosed

definition select_send :: "'a \<Rightarrow> 'a chan \<Rightarrow> 'a select_send" where
  "select_send v ch =
     (if is_closed ch then SendOnClosed
      else if length (buf ch) < capacity ch then Sent (ch\<lparr>buf := buf ch @ [v]\<rparr>)
      else Default)"

text \<open>\<open>close(ch)\<close>: closing a closed channel panics.\<close>

definition close_chan :: "'a chan \<Rightarrow> error + 'a chan" where
  "close_chan ch =
     (if is_closed ch then Inl (Panic ''close of closed channel'')
      else Inr (ch\<lparr>is_closed := True\<rparr>))"

subsection \<open>State\<close>

text \<open>
  \<open>Client\<close>: the connection handle is left out (nothing below reads it). The second field
  is the source's \<open>Username\<close>, renamed because \<open>LocationData\<close> has a field of that name.
\<close>

record Client =
  ID :: string
  Username_c :: string
  Send :: "bytes chan"

datatype log_line =
  LogConnected string string
| LogDisconnected string string
| LogBroadcastFull
| LogUnmarshalMessage
| LogUnmarshalLocation
| LogReceived string real real
| LogWebSocketError

text \<open>
  The state of the server. \<open>clients\<close> and \<open>locations\<close> are the two maps of the \<open>Hub\<close>:
  the keys of \<open>map[*Client]bool\<close> as a list of addresses in some iteration order, and
  \<open>map[string]LocationData\<close> as an association list. \<open>heap\<close> holds the \<open>Client\<close> objects
  the addresses point to, \<open>nextp\<close> is the next unused address, \<open>readers\<close> are the clients
  whose \<open>readPump\<close> is still in its loop, and \<open>logs\<close> is what has been written
  with \<open>log.Printf\<close>.
\<close>

record world =
  clients :: "nat list"
  locations :: "(string \<times> LocationData) list"
  heap :: "nat \<Rightarrow> Client"
  nextp :: nat
  readers :: "nat list"
  logs :: "log_line list"

text \<open>
  \<open>newHub\<close>: both maps empty and no \<open>Client\<close> allocated yet (what the heap holds at an
  address that has not been handed out is never read by a run of the server).
\<close>

definition newHub :: world where
  "newHub =
     \<lparr>clients = [], locations = [],
      heap = (\<lambda>_. \<lparr>ID = [], Username_c = [], Send = make_chan 0\<rparr>),
      nextp = 0, readers = [], logs = []\<rparr>"

definition log_printf :: "log_line \<Rightarrow> world \<Rightarrow> world" where
  "log_printf l w = w\<lparr>logs := logs w @ [l]\<rparr>"

definition set_Send :: "nat \<Rightarrow> bytes chan \<Rightarrow> world \<Rightarrow> world" where
  "set_Send p ch w = w\<lparr>heap := (heap w)(p := (heap w p)\<lparr>Send := ch\<rparr>)\<rparr>"

subsection \<open>Hub.run\<close>

text \<open>
  The body of \<open>case message := <-h.broadcast\<close>: the loop over the keys of \<open>h.clients\<close>.
  Deleting the current key while ranging over a map is allowed in Go and does not
  disturb the keys still to come.
\<close>

fun broadcast_loop :: "bytes \<Rightarrow> nat list \<Rightarrow> world \<Rightarrow> error + world" where
  "broadcast_loop message [] w = Inr w"
| "broadcast_loop message (client # rest) w =
     (case select_send message (Send (heap w client)) of
        Sent ch \<Rightarrow> broadcast_loop message rest (set_Send client ch w)
      | Default \<Rightarrow>
          (case close_chan (Send (heap w client)) of
             Inl e \<Rightarrow> Inl e
           | Inr ch \<Rightarrow>
               broadcast_loop message rest
                 ((set_Send client ch w)\<lparr>clients := removeAll client (clients w)\<rparr>))
      | SendOnClosed \<Rightarrow> Inl (Panic ''send on closed channel''))"

definition run_broadcast :: "bytes \<Rightarrow> world \<Rightarrow> error + world" where
  "run_broadcast message w = broadcast_loop message (clients w) w"

text \<open>
  \<open>Hub.broadcastMessage\<close>: a send on the unbuffered channel \<open>h.broadcast\<close> inside a
  \<open>select\<close> with a default branch. The send is taken exactly when a receiver is waiting
  on the channel. The only receiver is the goroutine of \<open>Hub.run\<close>; \<open>parked\<close> says that
  it is waiting in its \<open>select\<close>. When the send is taken, that goroutine goes on with
  its broadcast case on the value.
\<close>

definition broadcastMessage :: "bool \<Rightarrow> Message \<Rightarrow> world \<Rightarrow> error + world" where
  "broadcastMessage parked message w =
     (let data = marshal message in
      if parked then run_broadcast data w
      else Inr (log_printf LogBroadcastFull w))"

definition sendCurrentLocations :: "nat \<Rightarrow> world \<Rightarrow> error + world" where
  "sendCurrentLocations client w =
     (if length (locations w) > 0 then
        (let data = marshal (current_locations (locations w)) in
         case select_send data (Send (heap w client)) of
           Sent ch \<Rightarrow> Inr (set_Send client ch w)
         | Default \<Rightarrow>
             (case close_chan (Send (heap w client)) of
                Inl e \<Rightarrow> Inl e
              | Inr ch \<Rightarrow> Inr (set_Send client ch w))
         | SendOnClosed \<Rightarrow> Inl (Panic ''send on closed channel''))
      else Inr w)"

text \<open>
  The body of \<open>case client := <-h.register\<close>. The call of \<open>broadcastMessage\<close> is made by
  the goroutine of \<open>Hub.run\<close> itself, in the middle of a case body: no receiver waits
  on \<open>h.broadcast\<close>.
\<close>

definition run_register :: "nat \<Rightarrow> world \<Rightarrow> error + world" where
  "run_register client w =
     (let w1 = w\<lparr>clients := List.insert client (clients w)\<rparr>;
          w2 = log_printf (LogConnected (ID (heap w1 client)) (Username_c (heap w1 client))) w1
      in case sendCurrentLocations client w2 of
           Inl e \<Rightarrow> Inl e
         | Inr w3 \<Rightarrow> broadcastMessage False (user_connected (Username_c (heap w3 client))) w3)"

text \<open>The body of \<open>case client := <-h.unregister\<close>.\<close>

definition run_unregister :: "nat \<Rightarrow> world \<Rightarrow> error + world" where
  "run_unregister client w =
     (if client \<in> set (clients w) then
        (let w1 = w\<lparr>clients := removeAll client (clients w)\<rparr> in
         case close_chan (Send (heap w1 client)) of
           Inl e \<Rightarrow> Inl e
         | Inr ch \<Rightarrow>
             (let w2 = set_Send client ch w1;
                  w3 = w2\<lparr>locations := AList.delete (Username_c (heap w2 client)) (locations w2)\<rparr>;
                  w4 = log_printf
                         (LogDisconnected (ID (heap w3 client)) (Username_c (heap w3 client))) w3
              in broadcastMessage False (user_disconnected (Username_c (heap w4 client))) w4))
      else Inr w)"

text \<open>One turn of the loop of \<open>Hub.run\<close>, on the value its \<open>select\<close> received.\<close>

datatype hub_event = Register nat | Unregister nat | Broadcast bytes

fun run :: "hub_event \<Rightarrow> world \<Rightarrow> error + world" where
  "run (Register client) w = run_register client w"
| "run (Unregister client) w = run_unregister client w"
| "run (Broadcast message) w = run_broadcast message w"

subsection \<open>Hub.updateLocation\<close>

definition updateLocation :: "bool \<Rightarrow> string \<Rightarrow> LocationData \<Rightarrow> world \<Rightarrow> error + world" where
  "updateLocation parked username location w =
     (let w1 = w\<lparr>locations := AList.update username location (locations w)\<rparr>
      in broadcastMessage parked (location_update location) w1)"

subsection \<open>Client.readPump and Client.writePump\<close>

text \<open>
  \<open>encoding/json\<close> belongs to the standard library. An inbound frame is represented by
  what the two decoding steps of \<open>readPump\<close> make of it: \<open>json.Unmarshal\<close> into a
  \<open>Message\<close> either fails (\<open>BadEnvelope\<close>) or yields the \<open>Type\<close>, and decoding the
  message's \<open>Data\<close> as a \<open>LocationData\<close> (marshal, then unmarshal) either fails
  (\<open>BadLocation\<close>) or yields a record.
\<close>

datatype location_decode = BadLocation | GoodLocation LocationData

datatype frame = BadEnvelope | Envelope string location_decode

text \<open>
  The result of \<open>c.Conn.ReadMessage()\<close>: an error (the flag: whether
  \<open>websocket.IsUnexpectedCloseError\<close> holds of it) or a frame.
\<close>

datatype read_result = ReadError bool | ReadOk frame

datatype pump = Continue | Exited

text \<open>
  One turn of the loop of \<open>readPump\<close>. On a read error the loop is left and the deferred
  function runs: the send on \<open>hub.unregister\<close> blocks until the goroutine of \<open>Hub.run\<close>
  takes the value, which then runs its unregister case.
\<close>

definition readPump_step :: "bool \<Rightarrow> nat \<Rightarrow> read_result \<Rightarrow> world \<Rightarrow> error + (pump \<times> world)" where
  "readPump_step parked c r w =
     (case r of
        ReadError unexpected \<Rightarrow>
          (let w1 = (if unexpected then log_printf LogWebSocketError w else w) in
           case run_unregister c w1 of
             Inl e \<Rightarrow> Inl e
           | Inr w2 \<Rightarrow> Inr (Exited, w2\<lparr>readers := removeAll c (readers w2)\<rparr>))
      | ReadOk message \<Rightarrow>
          (case message of
             BadEnvelope \<Rightarrow> Inr (Continue, log_printf LogUnmarshalMessage w)
           | Envelope msg_type decoded \<Rightarrow>
               if msg_type = ''location_update'' then
                 (case decoded of
                    BadLocation \<Rightarrow> Inr (Continue, log_printf LogUnmarshalLocation w)
                  | GoodLocation l \<Rightarrow>
                      (let locationData = l\<lparr>Username := Username_c (heap w c)\<rparr>;
                           w1 = log_printf
                                  (LogReceived (Username_c (heap w c)) (Latitude locationData)
                                     (Longitude locationData)) w
                       in case updateLocation parked (Username_c (heap w1 c)) locationData w1 of
                            Inl e \<Rightarrow> Inl e
                          | Inr w2 \<Rightarrow> Inr (Continue, w2)))
               else Inr (Continue, w)))"

text \<open>
  \<open>readPump\<close> on the results its reads return, one after the other, each with the flag
  of \<open>broadcastMessage\<close> at that moment. When the results run out the loop waits in
  \<open>ReadMessage\<close>.
\<close>

fun readPump :: "nat \<Rightarrow> (bool \<times> read_result) list \<Rightarrow> world \<Rightarrow> error + (pump \<times> world)" where
  "readPump c [] w = Inr (Continue, w)"
| "readPump c ((parked, r) # rs) w =
     (case readPump_step parked c r w of
        Inl e \<Rightarrow> Inl e
      | Inr (Exited, w') \<Rightarrow> Inr (Exited, w')
      | Inr (Continue, w') \<Rightarrow> readPump c rs w')"

text \<open>
  One receive of \<open>writePump\<close> from \<open>c.Send\<close>: the oldest waiting message leaves the
  buffer (a closed channel still hands out what it holds).
\<close>

definition writePump_step :: "nat \<Rightarrow> world \<Rightarrow> world" where
  "writePump_step c w =
     (case buf (Send (heap w c)) of
        [] \<Rightarrow> w
      | message # rest \<Rightarrow> set_Send c ((Send (heap w c))\<lparr>buf := rest\<rparr>) w)"

subsection \<open>handleWebSocket and the runs of the server\<close>

text \<open>
  \<open>handleWebSocket\<close> after a successful upgrade, with the identifier that
  \<open>generateClientID\<close> returns: a new \<open>Client\<close> at a new address, handed to the goroutine
  of \<open>Hub.run\<close> over the register channel, then the two pumps are started.
\<close>

definition handleWebSocket :: "string \<Rightarrow> string \<Rightarrow> world \<Rightarrow> error + world" where
  "handleWebSocket uuid query_username w =
     (let username = (if query_username = [] then ''Anonymous'' else query_username);
          client = nextp w;
          w1 = w\<lparr>heap := (heap w)(client :=
                      \<lparr>ID = uuid, Username_c = username, Send = make_chan 256\<rparr>),
                  nextp := Suc client\<rparr>
      in case run_register client w1 of
           Inl e \<Rightarrow> Inl e
         | Inr w2 \<Rightarrow> Inr (w2\<lparr>readers := client # readers w2\<rparr>))"

text \<open>
  What can happen to the server: a connection is accepted, the \<open>readPump\<close> of a client
  gets the result of a read, the \<open>writePump\<close> of a client takes a message. A read result
  for a client whose \<open>readPump\<close> has returned does not occur; \<open>step\<close> ignores it.
\<close>

datatype event =
  Connect string string
| Receive nat bool read_result
| Deliver nat

fun step :: "event \<Rightarrow> world \<Rightarrow> error + world" where
  "step (Connect uuid query_username) w = handleWebSocket uuid query_username w"
| "step (Receive c parked r) w =
     (if c \<in> set (readers w) then
        (case readPump_step parked c r w of Inl e \<Rightarrow> Inl e | Inr (_, w') \<Rightarrow> Inr w')
      else Inr w)"
| "step (Deliver c) w = Inr (writePump_step c w)"

fun exec :: "event list \<Rightarrow> world \<Rightarrow> error + world" where
  "exec [] w = Inr w"
| "exec (e # es) w = (case step e w of Inl x \<Rightarrow> Inl x | Inr w' \<Rightarrow> exec es w')"

subsection \<open>Notions used in the statements\<close>

text \<open>The queue of a client has room for one more message.\<close>

definition has_room :: "world \<Rightarrow> nat \<Rightarrow> bool" where
  "has_room w c = (length (buf (Send (heap w c))) < capacity (Send (heap w c)))"

text \<open>
  What one turn of the broadcast loop does to a client whose queue is open: the message
  is appended, or the queue is closed.
\<close>

definition deliver_to :: "bytes \<Rightarrow> world \<Rightarrow> nat \<Rightarrow> Client" where
  "deliver_to message w c =
     (if has_room w c
      then (heap w c)\<lparr>Send := (Send (heap w c))\<lparr>buf := buf (Send (heap w c)) @ [message]\<rparr>\<rparr>
      else (heap w c)\<lparr>Send := (Send (heap w c))\<lparr>is_closed := True\<rparr>\<rparr>)"

text \<open>The state after the broadcast loop has visited the clients \<open>cs\<close>, all of them open.\<close>

definition fan_out :: "bytes \<Rightarrow> nat list \<Rightarrow> world \<Rightarrow> world" where
  "fan_out message cs w =
     w\<lparr>clients := filter (\<lambda>c. c \<notin> set cs \<or> has_room w c) (clients w),
       heap := (\<lambda>c. if c \<in> set cs then deliver_to message w c else heap w c)\<rparr>"

text \<open>
  What holds of the hub in every run of the server: the keys of \<open>h.clients\<close> are
  distinct addresses that have been handed out, and the queue of a registered client is
  open.
\<close>

definition hub_inv :: "world \<Rightarrow> bool" where
  "hub_inv w =
     (distinct (clients w) \<and>
      (\<forall>c\<in>set (clients w). c < nextp w \<and> \<not> is_closed (Send (heap w c))))"

text \<open>The state in which \<open>readPump\<close> calls \<open>broadcastMessage\<close> for a decoded location.\<close>

definition stored :: "nat \<Rightarrow> LocationData \<Rightarrow> world \<Rightarrow> world" where
  "stored c l w =
     (log_printf (LogReceived (Username_c (heap w c)) (Latitude l) (Longitude l)) w)
       \<lparr>locations := AList.update (Username_c (heap w c))
                      (l\<lparr>Username := Username_c (heap w c)\<rparr>) (locations w)\<rparr>"

text \<open>
  Two states used as concrete inputs. In \<open>saturated_world\<close> the user alice is registered
  and has a location, and the \<open>Client\<close> at address 1 has a queue of 256 that is full.
  \<open>first_client\<close> is the state in which \<open>handleWebSocket\<close> hands the first client to
  the hub.
\<close>

definition saturated_world :: world where
  "saturated_world =
     \<lparr>clients = [0],
      locations = [(''alice'', \<lparr>Username = ''alice'', Latitude = 35, Longitude = 135, Timestamp = 1000\<rparr>)],
      heap = (\<lambda>_. \<lparr>ID = [], Username_c = [], Send = make_chan 0\<rparr>)
               (0 := \<lparr>ID = ''u1'', Username_c = ''alice'', Send = make_chan 256\<rparr>,
                1 := \<lparr>ID = ''u2'', Username_c = ''bob'',
                      Send = \<lparr>buf = replicate 256 (marshal (user_connected ''carol'')),
                              capacity = 256, is_closed = False\<rparr>\<rparr>),
      nextp = 2, readers = [0], logs = []\<rparr>"

definition first_client :: world where
  "first_client =
     newHub\<lparr>heap := (heap newHub)(0 := \<lparr>ID = ''u1'', Username_c = ''alice'', Send = make_chan 256\<rparr>),
            nextp := 1\<rparr>"

text \<open>
  A run is calm when no broadcast of it meets a full queue: whenever an event makes the
  hub run its broadcast case (a decoded location update, submitted while the hub waits),
  every registered client has room.
\<close>

definition roomy :: "world \<Rightarrow> bool" where
  "roomy w = list_all (has_room w) (clients w)"

fun fans_out :: "event \<Rightarrow> world \<Rightarrow> bool" where
  "fans_out (Receive c parked (ReadOk (Envelope msg_type (GoodLocation l)))) w =
     (c \<in> set (readers w) \<and> parked \<and> msg_type = ''location_update'')"
| "fans_out _ w = False"

fun calm :: "event list \<Rightarrow> world \<Rightarrow> bool" where
  "calm [] w = True"
| "calm (e # es) w =
     ((fans_out e w \<longrightarrow> roomy w) \<and>
      (case step e w of Inl x \<Rightarrow> True | Inr w' \<Rightarrow> calm es w'))"

text \<open>
  Every client whose \<open>readPump\<close> runs is registered, and every key of the store is the
  user name of a registered client.
\<close>

definition key_inv :: "world \<Rightarrow> bool" where
  "key_inv w =
     (set (readers w) \<subseteq> set (clients w) \<and>
      (\<forall>k\<in>fst ` set (locations w). \<exists>c\<in>set (clients w). Username_c (heap w c) = k))"

text \<open>More concrete inputs: two locations and the states that four short runs reach.\<close>

definition loc_a :: LocationData where
  "loc_a = \<lparr>Username = ''alice'', Latitude = 35, Longitude = 135, Timestamp = 1000\<rparr>"

definition loc_b :: LocationData where
  "loc_b = \<lparr>Username = ''alice'', Latitude = 36, Longitude = 136, Timestamp = 2000\<rparr>"

definition alice_saturated :: world where
  "alice_saturated =
     projr (exec (Connect ''u1'' ''alice'' #
       replicate 256 (Receive 0 True (ReadOk (Envelope ''location_update'' (GoodLocation loc_a)))))
       newHub)"

definition bob_alice :: world where
  "bob_alice = projr (exec [Connect ''u1'' ''bob'', Connect ''u2'' ''alice''] newHub)"

definition alice_left :: world where
  "alice_left = projr (exec [Connect ''u1'' ''bob'', Connect ''u2'' ''alice'',
                             Receive 1 True (ReadError False)] newHub)"

definition alice_connected :: world where
  "alice_connected = projr (exec [Connect ''u1'' ''alice''] newHub)"

section \<open>Properties\<close>

subsection \<open>The broadcast loop\<close>

lemma broadcast_loop_fan_out:
  "distinct cs \<Longrightarrow> (\<forall>c\<in>set cs. \<not> is_closed (Send (heap w c))) \<Longrightarrow>
   broadcast_loop message cs w = Inr (fan_out message cs w)"
proof (induction cs arbitrary: w)
  case Nil
  show ?case by (simp add: fan_out_def)
next
  case (Cons c cs)
  have c_open: "\<not> is_closed (Send (heap w c))" and c_new: "c \<notin> set cs" and d: "distinct cs"
    using Cons.prems by auto
  show ?case
  proof (cases "has_room w c")
    case True
    let ?w1 = "set_Send c ((Send (heap w c))\<lparr>buf := buf (Send (heap w c)) @ [message]\<rparr>) w"
    have open1: "\<forall>x\<in>set cs. \<not> is_closed (Send (heap ?w1 x))"
      using Cons.prems c_new by (auto simp: set_Send_def)
    have "broadcast_loop message (c # cs) w = broadcast_loop message cs ?w1"
      using True c_open by (simp add: select_send_def has_room_def)
    also have "\<dots> = Inr (fan_out message cs ?w1)"
      by (rule Cons.IH [OF d open1])
    also have "fan_out message cs ?w1 = fan_out message (c # cs) w"
    proof -
      have cl: "filter (\<lambda>x. x \<notin> set cs \<or> has_room ?w1 x) (clients ?w1)
                = filter (\<lambda>x. x \<notin> set (c # cs) \<or> has_room w x) (clients w)"
        using True c_new by (auto simp: set_Send_def has_room_def intro!: filter_cong)
      have hp: "(\<lambda>x. if x \<in> set cs then deliver_to message ?w1 x else heap ?w1 x)
                = (\<lambda>x. if x \<in> set (c # cs) then deliver_to message w x else heap w x)"
        using True c_new by (auto simp: set_Send_def has_room_def deliver_to_def fun_eq_iff)
      show ?thesis unfolding fan_out_def cl hp by (simp add: set_Send_def)
    qed
    finally show ?thesis .
  next
    case False
    let ?w1 = "(set_Send c ((Send (heap w c))\<lparr>is_closed := True\<rparr>) w)
                 \<lparr>clients := removeAll c (clients w)\<rparr>"
    have open1: "\<forall>x\<in>set cs. \<not> is_closed (Send (heap ?w1 x))"
      using Cons.prems c_new by (auto simp: set_Send_def)
    have "broadcast_loop message (c # cs) w = broadcast_loop message cs ?w1"
      using False c_open by (simp add: select_send_def has_room_def close_chan_def)
    also have "\<dots> = Inr (fan_out message cs ?w1)"
      by (rule Cons.IH [OF d open1])
    also have "fan_out message cs ?w1 = fan_out message (c # cs) w"
    proof -
      have cl: "filter (\<lambda>x. x \<notin> set cs \<or> has_room ?w1 x) (clients ?w1)
                = filter (\<lambda>x. x \<notin> set (c # cs) \<or> has_room w x) (clients w)"
        using False c_new
        by (auto simp: set_Send_def has_room_def removeAll_filter_not_eq intro!: filter_cong)
      have hp: "(\<lambda>x. if x \<in> set cs then deliver_to message ?w1 x else heap ?w1 x)
                = (\<lambda>x. if x \<in> set (c # cs) then deliver_to message w x else heap w x)"
        using False c_new by (auto simp: set_Send_def has_room_def deliver_to_def fun_eq_iff)
      show ?thesis unfolding fan_out_def cl hp by (simp add: set_Send_def)
    qed
    finally show ?thesis .
  qed
qed

lemma broadcast_loop_closed:
  "c \<in> set cs \<Longrightarrow> is_closed (Send (heap w c)) \<Longrightarrow>
   broadcast_loop message cs w = Inl (Panic ''send on closed channel'')"
proof (induction cs arbitrary: w)
  case Nil
  then show ?case by simp
next
  case (Cons d cs)
  show ?case
  proof (cases "d = c")
    case True
    then show ?thesis using Cons.prems by (simp add: select_send_def)
  next
    case False
    then have "c \<in> set cs" using Cons.prems by simp
    then show ?thesis using Cons.IH Cons.prems(2) False
      by (simp add: select_send_def close_chan_def set_Send_def)
  qed
qed

lemma run_broadcast_fan_out:
  "hub_inv w \<Longrightarrow> run_broadcast message w = Inr (fan_out message (clients w) w)"
  unfolding run_broadcast_def hub_inv_def by (rule broadcast_loop_fan_out) auto

subsection \<open>The runs of the server keep the queues of registered clients open\<close>

lemma hub_inv_fan_out: "hub_inv w \<Longrightarrow> hub_inv (fan_out message (clients w) w)"
  by (auto simp: hub_inv_def fan_out_def deliver_to_def)

lemma hub_inv_frame:
  "hub_inv w \<Longrightarrow> hub_inv (w\<lparr>locations := ls\<rparr>)" "hub_inv w \<Longrightarrow> hub_inv (w\<lparr>logs := lg\<rparr>)"
  "hub_inv w \<Longrightarrow> hub_inv (w\<lparr>readers := rs\<rparr>)"
  by (auto simp: hub_inv_def)

lemma broadcastMessage_inv:
  "hub_inv w \<Longrightarrow> \<exists>w'. broadcastMessage parked message w = Inr w' \<and> hub_inv w'"
  by (cases parked)
     (simp_all add: broadcastMessage_def run_broadcast_fan_out hub_inv_fan_out log_printf_def
        hub_inv_frame)

lemma updateLocation_inv:
  "hub_inv w \<Longrightarrow> \<exists>w'. updateLocation parked username location w = Inr w' \<and> hub_inv w'"
  unfolding updateLocation_def Let_def by (rule broadcastMessage_inv) (simp add: hub_inv_frame)

lemma run_unregister_inv:
  "hub_inv w \<Longrightarrow> \<exists>w'. run_unregister c w = Inr w' \<and> hub_inv w'"
  by (auto simp: run_unregister_def close_chan_def broadcastMessage_def log_printf_def
        set_Send_def hub_inv_def Let_def distinct_removeAll)

lemma handleWebSocket_inv:
  "hub_inv w \<Longrightarrow> \<exists>w'. handleWebSocket uuid query_username w = Inr w' \<and> hub_inv w'"
  by (auto simp: handleWebSocket_def run_register_def sendCurrentLocations_def
        broadcastMessage_def log_printf_def select_send_def make_chan_def
        set_Send_def hub_inv_def Let_def List.insert_def)

lemma readPump_step_inv:
  "hub_inv w \<Longrightarrow> \<exists>k w'. readPump_step parked c r w = Inr (k, w') \<and> hub_inv w'"
proof (cases r)
  case (ReadError unexpected)
  let ?w1 = "if unexpected then log_printf LogWebSocketError w else w"
  assume "hub_inv w"
  then have "hub_inv ?w1" by (simp add: log_printf_def hub_inv_frame)
  from run_unregister_inv [OF this, of c] obtain w2 where
    "run_unregister c ?w1 = Inr w2" "hub_inv w2" by blast
  then show ?thesis using ReadError by (simp add: readPump_step_def hub_inv_frame)
next
  case (ReadOk message)
  assume inv: "hub_inv w"
  show ?thesis
  proof (cases message)
    case BadEnvelope
    then show ?thesis using ReadOk inv by (simp add: readPump_step_def log_printf_def hub_inv_frame)
  next
    case (Envelope msg_type decoded)
    show ?thesis
    proof (cases decoded)
      case BadLocation
      then show ?thesis using ReadOk Envelope inv
        by (simp add: readPump_step_def log_printf_def hub_inv_frame)
    next
      case (GoodLocation l)
      let ?ld = "l\<lparr>Username := Username_c (heap w c)\<rparr>"
      let ?w1 = "log_printf (LogReceived (Username_c (heap w c)) (Latitude ?ld) (Longitude ?ld)) w"
      have "hub_inv ?w1" using inv by (simp add: log_printf_def hub_inv_frame)
      from updateLocation_inv [OF this] obtain w2 where
        "updateLocation parked (Username_c (heap ?w1 c)) ?ld ?w1 = Inr w2" "hub_inv w2" by blast
      then show ?thesis using ReadOk Envelope GoodLocation inv
        by (simp add: readPump_step_def Let_def)
    qed
  qed
qed

lemma step_inv: "hub_inv w \<Longrightarrow> \<exists>w'. step e w = Inr w' \<and> hub_inv w'"
proof (cases e)
  case (Connect uuid query_username)
  assume "hub_inv w"
  then show ?thesis using Connect handleWebSocket_inv by simp
next
  case (Receive c parked r)
  assume inv: "hub_inv w"
  from readPump_step_inv [OF inv, of parked c r] obtain k w' where
    "readPump_step parked c r w = Inr (k, w')" "hub_inv w'" by blast
  then show ?thesis using Receive inv by auto
next
  case (Deliver c)
  assume "hub_inv w"
  then show ?thesis using Deliver
    by (auto simp: writePump_step_def set_Send_def hub_inv_def split: list.splits)
qed

lemma exec_inv: "hub_inv w \<Longrightarrow> \<exists>w'. exec es w = Inr w' \<and> hub_inv w'"
proof (induction es arbitrary: w)
  case Nil
  then show ?case by simp
next
  case (Cons e es)
  from step_inv [OF Cons.prems, of e] obtain w1 where s: "step e w = Inr w1" "hub_inv w1" by blast
  from Cons.IH [OF s(2)] show ?case using s(1) by simp
qed

lemma hub_inv_newHub: "hub_inv newHub"
  by (simp add: hub_inv_def newHub_def)

lemma reachable_inv: "exec es newHub = Inr w \<Longrightarrow> hub_inv w"
  using exec_inv [OF hub_inv_newHub, of es] by auto

lemma exec_returns: "\<exists>w. exec es newHub = Inr w"
  using exec_inv [OF hub_inv_newHub, of es] by auto

lemma exec_append:
  "exec (es @ fs) w = (case exec es w of Inl x \<Rightarrow> Inl x | Inr w' \<Rightarrow> exec fs w')"
  by (induction es arbitrary: w) (auto split: sum.splits)

subsection \<open>Filling the queues\<close>

lemma step_location_update:
  assumes "hub_inv w" "c \<in> set (readers w)"
  shows "step (Receive c True (ReadOk (Envelope ''location_update'' (GoodLocation l)))) w =
     Inr (fan_out (marshal (location_update (l\<lparr>Username := Username_c (heap w c)\<rparr>))) (clients w)
            (stored c l w))"
proof -
  have "hub_inv (stored c l w)" using assms(1) by (simp add: hub_inv_def stored_def log_printf_def)
  from run_broadcast_fan_out [OF this] show ?thesis using assms(2)
    by (simp add: readPump_step_def updateLocation_def broadcastMessage_def log_printf_def Let_def
          stored_def)
qed

lemma exec_fill:
  assumes "hub_inv w" "c \<in> set (readers w)"
    and "\<forall>d\<in>set (clients w). length (buf (Send (heap w d))) + n \<le> capacity (Send (heap w d))"
  shows "\<exists>w'. exec (replicate n (Receive c True (ReadOk (Envelope ''location_update'' (GoodLocation l))))) w = Inr w'
     \<and> clients w' = clients w \<and> readers w' = readers w
     \<and> (\<forall>d\<in>set (clients w). Send (heap w' d) = (Send (heap w d))\<lparr>buf := buf (Send (heap w d)) @
            replicate n (marshal (location_update (l\<lparr>Username := Username_c (heap w c)\<rparr>)))\<rparr>)"
  using assms
proof (induction n arbitrary: w)
  case 0
  then show ?case by simp
next
  case (Suc n)
  let ?ev = "Receive c True (ReadOk (Envelope ''location_update'' (GoodLocation l)))"
  let ?m = "marshal (location_update (l\<lparr>Username := Username_c (heap w c)\<rparr>))"
  let ?w0 = "stored c l w"
  let ?w1 = "fan_out ?m (clients w) ?w0"
  have s: "step ?ev w = Inr ?w1" by (rule step_location_update [OF Suc.prems(1,2)])
  have room: "\<forall>d\<in>set (clients w). has_room ?w0 d"
    using Suc.prems(3) by (auto simp: has_room_def stored_def log_printf_def)
  have cl: "clients ?w1 = clients w" using room by (simp add: fan_out_def stored_def log_printf_def)
  have rd: "readers ?w1 = readers w" by (simp add: fan_out_def stored_def log_printf_def)
  have sn: "\<forall>d\<in>set (clients w). Send (heap ?w1 d) = (Send (heap w d))\<lparr>buf := buf (Send (heap w d)) @ [?m]\<rparr>"
    using room by (simp add: fan_out_def deliver_to_def stored_def log_printf_def)
  have un: "Username_c (heap ?w1 c) = Username_c (heap w c)"
    by (simp add: fan_out_def deliver_to_def stored_def log_printf_def)
  have inv1: "hub_inv ?w1"
    using step_inv [OF Suc.prems(1), of ?ev] s by simp
  have c1: "c \<in> set (readers ?w1)" using Suc.prems(2) rd by simp
  have cap1: "\<forall>d\<in>set (clients ?w1). length (buf (Send (heap ?w1 d))) + n \<le> capacity (Send (heap ?w1 d))"
    using Suc.prems(3) sn cl by simp
  from Suc.IH [OF inv1 c1 cap1] obtain w' where
    e: "exec (replicate n ?ev) ?w1 = Inr w'" and
    r: "clients w' = clients ?w1" "readers w' = readers ?w1"
       "\<forall>d\<in>set (clients ?w1). Send (heap w' d) = (Send (heap ?w1 d))\<lparr>buf := buf (Send (heap ?w1 d)) @
            replicate n (marshal (location_update (l\<lparr>Username := Username_c (heap ?w1 c)\<rparr>)))\<rparr>"
    by blast
  have "exec (replicate (Suc n) ?ev) w = Inr w'" using s e by simp
  moreover have "clients w' = clients w" using r(1) cl by simp
  moreover have "readers w' = readers w" using r(2) rd by simp
  moreover have "\<forall>d\<in>set (clients w). Send (heap w' d) = (Send (heap w d))\<lparr>buf := buf (Send (heap w d)) @
            replicate (Suc n) ?m\<rparr>"
    using r(3) sn cl un by (simp add: replicate_app_Cons_same)
  ultimately show ?case by blast
qed

subsection \<open>Two clients connect\<close>

lemma two_connected:
  "\<exists>w. exec [Connect ''u1'' ''alice'', Connect ''u2'' ''bob''] newHub = Inr w \<and>
     clients w = [1, 0] \<and> readers w = [1, 0] \<and>
     Send (heap w 0) = make_chan 256 \<and> Send (heap w 1) = make_chan 256 \<and>
     Username_c (heap w 0) = ''alice'' \<and> Username_c (heap w 1) = ''bob'' \<and> locations w = [] \<and>
     logs w = [LogConnected ''u1'' ''alice'', LogBroadcastFull, LogConnected ''u2'' ''bob'', LogBroadcastFull]"
  by (simp add: newHub_def handleWebSocket_def run_register_def sendCurrentLocations_def
        broadcastMessage_def log_printf_def Let_def)

subsection \<open>Broadcast\<close>

text \<open>
  C1. In every state that a run of the server reaches, the broadcast case of \<open>Hub.run\<close>
  returns (it neither waits nor panics). Every registered client whose queue has room
  gets the message appended to its queue and stays registered; every registered client
  whose queue is full gets nothing, its queue is closed and it is removed from the
  registered clients. Nothing else changes.
\<close>

theorem broadcast_never_blocks:
  assumes "exec es newHub = Inr w"
  shows "\<exists>w'. run (Broadcast message) w = Inr w' \<and>
     (\<forall>c\<in>set (clients w).
        if has_room w c
        then c \<in> set (clients w') \<and>
             Send (heap w' c) = (Send (heap w c))\<lparr>buf := buf (Send (heap w c)) @ [message]\<rparr>
        else c \<notin> set (clients w') \<and>
             Send (heap w' c) = (Send (heap w c))\<lparr>is_closed := True\<rparr>) \<and>
     (\<forall>c. c \<notin> set (clients w) \<longrightarrow> c \<notin> set (clients w') \<and> heap w' c = heap w c) \<and>
     locations w' = locations w"
proof -
  have "hub_inv w" using assms by (rule reachable_inv)
  then have "run (Broadcast message) w = Inr (fan_out message (clients w) w)"
    by (simp add: run_broadcast_fan_out)
  then show ?thesis by (auto simp: fan_out_def deliver_to_def)
qed

theorem broadcast_never_blocks_witness:
  "\<exists>w w'.
     exec ([Connect ''u1'' ''alice'', Connect ''u2'' ''bob''] @
           replicate 256 (Receive 0 True (ReadOk (Envelope ''location_update''
             (GoodLocation \<lparr>Username = ''bob'', Latitude = 35, Longitude = 135, Timestamp = 1000\<rparr>)))) @
           [Deliver 1]) newHub = Inr w \<and>
     clients w = [1, 0] \<and> \<not> has_room w 0 \<and> has_room w 1 \<and>
     run (Broadcast (marshal (user_connected ''carol''))) w = Inr w' \<and>
     0 \<notin> set (clients w') \<and> is_closed (Send (heap w' 0)) \<and>
     buf (Send (heap w' 0)) = buf (Send (heap w 0)) \<and>
     1 \<in> set (clients w') \<and> \<not> is_closed (Send (heap w' 1)) \<and>
     buf (Send (heap w' 1)) = buf (Send (heap w 1)) @ [marshal (user_connected ''carol'')]"
proof -
  let ?l = "\<lparr>Username = ''bob'', Latitude = 35, Longitude = 135, Timestamp = 1000\<rparr>"
  let ?ev = "Receive 0 True (ReadOk (Envelope ''location_update'' (GoodLocation ?l)))"
  let ?es = "[Connect ''u1'' ''alice'', Connect ''u2'' ''bob''] @ replicate 256 ?ev @ [Deliver 1]"
  let ?m = "marshal (user_connected ''carol'')"
  obtain w0 where w0: "exec [Connect ''u1'' ''alice'', Connect ''u2'' ''bob''] newHub = Inr w0"
    "clients w0 = [1, 0]" "readers w0 = [1, 0]"
    "Send (heap w0 0) = make_chan 256" "Send (heap w0 1) = make_chan 256"
    using two_connected by blast
  have inv0: "hub_inv w0" using w0(1) by (rule reachable_inv)
  have "\<forall>d\<in>set (clients w0). length (buf (Send (heap w0 d))) + 256 \<le> capacity (Send (heap w0 d))"
    using w0 by (simp add: make_chan_def)
  from exec_fill [OF inv0 _ this, of 0 ?l] obtain w1 where w1:
    "exec (replicate 256 ?ev) w0 = Inr w1" "clients w1 = [1, 0]"
    "\<forall>d\<in>set (clients w0). Send (heap w1 d) = (Send (heap w0 d))\<lparr>buf := buf (Send (heap w0 d)) @
        replicate 256 (marshal (location_update (?l\<lparr>Username := Username_c (heap w0 0)\<rparr>)))\<rparr>"
    using w0(2,3) by auto
  let ?w = "writePump_step 1 w1"
  have run: "exec ?es newHub = Inr ?w"
    using w0(1) w1(1) by (simp only: exec_append exec.simps step.simps sum.case)
  have s0: "length (buf (Send (heap w1 0))) = 256" "capacity (Send (heap w1 0)) = 256"
    "\<not> is_closed (Send (heap w1 0))"
    and s1: "length (buf (Send (heap w1 1))) = 256" "capacity (Send (heap w1 1)) = 256"
    "\<not> is_closed (Send (heap w1 1))"
    using w1(3) w0(2,4,5) by (simp_all add: make_chan_def)
  have cl: "clients ?w = [1, 0]"
    using w1(2) by (simp add: writePump_step_def set_Send_def split: list.splits)
  have full0: "\<not> has_room ?w 0"
    using s0 by (simp add: has_room_def writePump_step_def set_Send_def split: list.splits)
  have room1: "has_room ?w 1"
    using s1 by (auto simp: has_room_def writePump_step_def set_Send_def split: list.splits)
  have open1: "\<not> is_closed (Send (heap ?w 1))"
    using s1 by (auto simp: writePump_step_def set_Send_def split: list.splits)
  from broadcast_never_blocks [OF run, of ?m] obtain w' where w':
    "run (Broadcast ?m) ?w = Inr w'"
    "\<forall>c\<in>set (clients ?w).
        if has_room ?w c
        then c \<in> set (clients w') \<and>
             Send (heap w' c) = (Send (heap ?w c))\<lparr>buf := buf (Send (heap ?w c)) @ [?m]\<rparr>
        else c \<notin> set (clients w') \<and>
             Send (heap w' c) = (Send (heap ?w c))\<lparr>is_closed := True\<rparr>"
    by blast
  have a: "0 \<notin> set (clients w') \<and> Send (heap w' 0) = (Send (heap ?w 0))\<lparr>is_closed := True\<rparr>"
    using w'(2) cl full0 by auto
  have b: "1 \<in> set (clients w') \<and>
      Send (heap w' 1) = (Send (heap ?w 1))\<lparr>buf := buf (Send (heap ?w 1)) @ [?m]\<rparr>"
    using w'(2) cl room1 by auto
  show ?thesis
    using run cl full0 room1 w'(1) a b open1 by (intro exI [of _ ?w] exI [of _ w']) simp
qed

subsection \<open>Saturation at registration\<close>

text \<open>
  C10. When the hub registers a client while the store is not empty and the client's
  queue is open and full, the snapshot is not delivered and the queue is closed, but the
  client is added to the registered clients and stays there: no other client is touched,
  the store is unchanged, nothing about a disconnection is logged or sent. Every later
  broadcast reaches the closed queue of that client (and panics on it).
\<close>

theorem snapshot_saturation_keeps_session:
  assumes "locations w \<noteq> []" "\<not> is_closed (Send (heap w c))" "\<not> has_room w c"
  shows "\<exists>w'. run (Register c) w = Inr w' \<and>
     c \<in> set (clients w') \<and> set (clients w) \<subseteq> set (clients w') \<and>
     Send (heap w' c) = (Send (heap w c))\<lparr>is_closed := True\<rparr> \<and>
     (\<forall>d. d \<noteq> c \<longrightarrow> heap w' d = heap w d) \<and>
     locations w' = locations w \<and>
     logs w' = logs w @ [LogConnected (ID (heap w c)) (Username_c (heap w c)), LogBroadcastFull] \<and>
     (\<forall>message. run (Broadcast message) w' = Inl (Panic ''send on closed channel''))"
proof -
  let ?w' = "(set_Send c ((Send (heap w c))\<lparr>is_closed := True\<rparr>)
               (log_printf (LogConnected (ID (heap w c)) (Username_c (heap w c)))
                  (w\<lparr>clients := List.insert c (clients w)\<rparr>)))"
  have r: "run (Register c) w = Inr (log_printf LogBroadcastFull ?w')"
    using assms
    by (simp add: run_register_def sendCurrentLocations_def select_send_def close_chan_def
          broadcastMessage_def has_room_def log_printf_def set_Send_def Let_def)
  have "c \<in> set (clients (log_printf LogBroadcastFull ?w'))"
    "is_closed (Send (heap (log_printf LogBroadcastFull ?w') c))"
    by (simp_all add: log_printf_def set_Send_def)
  then have p: "\<forall>message. run (Broadcast message) (log_printf LogBroadcastFull ?w')
       = Inl (Panic ''send on closed channel'')"
    by (simp add: run_broadcast_def broadcast_loop_closed)
  show ?thesis
    using r p by (auto simp: log_printf_def set_Send_def)
qed

theorem snapshot_saturation_keeps_session_witness:
  "locations saturated_world \<noteq> [] \<and> \<not> is_closed (Send (heap saturated_world 1)) \<and>
   \<not> has_room saturated_world 1 \<and>
   (\<exists>w'. run (Register 1) saturated_world = Inr w' \<and> clients w' = [1, 0] \<and>
      is_closed (Send (heap w' 1)) \<and> heap w' 0 = heap saturated_world 0 \<and>
      logs w' = [LogConnected ''u2'' ''bob'', LogBroadcastFull] \<and>
      run (Broadcast (marshal (user_connected ''bob''))) w' = Inl (Panic ''send on closed channel''))"
proof -
  have h: "locations saturated_world \<noteq> []" "\<not> is_closed (Send (heap saturated_world 1))"
    "\<not> has_room saturated_world 1"
    by (simp_all add: saturated_world_def has_room_def)
  from snapshot_saturation_keeps_session [OF h] obtain w' where w':
    "run (Register 1) saturated_world = Inr w'"
    "Send (heap w' 1) = (Send (heap saturated_world 1))\<lparr>is_closed := True\<rparr>"
    "\<forall>d. d \<noteq> 1 \<longrightarrow> heap w' d = heap saturated_world d"
    "logs w' = logs saturated_world @
       [LogConnected (ID (heap saturated_world 1)) (Username_c (heap saturated_world 1)), LogBroadcastFull]"
    "\<forall>message. run (Broadcast message) w' = Inl (Panic ''send on closed channel'')"
    by blast
  have "clients w' = [1, 0]"
    using w'(1)
    by (auto simp: saturated_world_def run_register_def sendCurrentLocations_def select_send_def
          close_chan_def broadcastMessage_def log_printf_def set_Send_def Let_def)
  then show ?thesis using h w' by (auto simp: saturated_world_def)
qed

subsection \<open>Submitting a message to the hub\<close>

lemma broadcast_loop_locations:
  "broadcast_loop message cs w = Inr w' \<Longrightarrow> locations w' = locations w"
proof (induction cs arbitrary: w)
  case Nil
  then show ?case by simp
next
  case (Cons c cs)
  then show ?case
    by (auto simp: set_Send_def split: select_send.splits sum.splits)
qed

text \<open>
  C9. \<open>broadcastMessage\<close> called while no receiver waits on the broadcast channel
  returns at once: the message, whatever its kind, is dropped and one line is logged.
  The register and unregister cases of \<open>Hub.run\<close> call it in that situation, so their
  notices reach nobody: after a registration every queue holds what it held before
  (the new client's queue may have gained the snapshot), after the unregistration of a
  registered client every queue holds what it held before, and the log ends with the
  line of the dropped message.
\<close>

theorem notices_are_dropped:
  "(\<forall>message. broadcastMessage False message w = Inr (log_printf LogBroadcastFull w)) \<and>
   (\<forall>w'. run (Register c) w = Inr w' \<longrightarrow>
      (\<forall>d. buf (Send (heap w' d)) = buf (Send (heap w d)) \<or>
           (d = c \<and> buf (Send (heap w' d)) =
              buf (Send (heap w d)) @ [marshal (current_locations (locations w))])) \<and>
      logs w' = logs w @ [LogConnected (ID (heap w c)) (Username_c (heap w c)), LogBroadcastFull]) \<and>
   (\<forall>w'. run (Unregister c) w = Inr w' \<longrightarrow> c \<in> set (clients w) \<longrightarrow>
      (\<forall>d. buf (Send (heap w' d)) = buf (Send (heap w d))) \<and>
      logs w' = logs w @ [LogDisconnected (ID (heap w c)) (Username_c (heap w c)), LogBroadcastFull])"
proof (intro conjI allI impI)
  fix message
  show "broadcastMessage False message w = Inr (log_printf LogBroadcastFull w)"
    by (simp add: broadcastMessage_def)
next
  fix w' d
  assume "run (Register c) w = Inr w'"
  then show "buf (Send (heap w' d)) = buf (Send (heap w d)) \<or>
           (d = c \<and> buf (Send (heap w' d)) =
              buf (Send (heap w d)) @ [marshal (current_locations (locations w))])"
    by (auto simp: run_register_def sendCurrentLocations_def select_send_def close_chan_def
          broadcastMessage_def log_printf_def set_Send_def Let_def split: if_splits)
next
  fix w'
  assume "run (Register c) w = Inr w'"
  then show "logs w' = logs w @ [LogConnected (ID (heap w c)) (Username_c (heap w c)), LogBroadcastFull]"
    by (auto simp: run_register_def sendCurrentLocations_def select_send_def close_chan_def
          broadcastMessage_def log_printf_def set_Send_def Let_def split: if_splits)
next
  fix w' d
  assume "run (Unregister c) w = Inr w'" "c \<in> set (clients w)"
  then show "buf (Send (heap w' d)) = buf (Send (heap w d))"
    by (auto simp: run_unregister_def close_chan_def
          broadcastMessage_def log_printf_def set_Send_def Let_def split: if_splits)
next
  fix w'
  assume "run (Unregister c) w = Inr w'" "c \<in> set (clients w)"
  then show "logs w' = logs w @ [LogDisconnected (ID (heap w c)) (Username_c (heap w c)), LogBroadcastFull]"
    by (auto simp: run_unregister_def close_chan_def
          broadcastMessage_def log_printf_def set_Send_def Let_def split: if_splits)
qed

theorem notices_are_dropped_witness:
  "broadcastMessage False (user_connected ''alice'') first_client
     = Inr (log_printf LogBroadcastFull first_client) \<and>
   (\<exists>w1 w2 w3. run (Register 0) first_client = Inr w1 \<and>
      logs w1 = [LogConnected ''u1'' ''alice'', LogBroadcastFull] \<and> buf (Send (heap w1 0)) = [] \<and>
      handleWebSocket ''u2'' ''bob'' w1 = Inr w2 \<and> clients w2 = [1, 0] \<and>
      buf (Send (heap w2 0)) = [] \<and>
      run (Unregister 1) w2 = Inr w3 \<and> clients w3 = [0] \<and> buf (Send (heap w3 0)) = [] \<and>
      logs w3 = logs w2 @ [LogDisconnected ''u2'' ''bob'', LogBroadcastFull])"
proof -
  obtain w1 where w1: "run (Register 0) first_client = Inr w1" "clients w1 = [0]"
     "buf (Send (heap w1 0)) = []" "nextp w1 = 1" "locations w1 = []"
    by (simp add: first_client_def newHub_def run_register_def sendCurrentLocations_def
          broadcastMessage_def log_printf_def make_chan_def Let_def)
  obtain w2 where w2: "handleWebSocket ''u2'' ''bob'' w1 = Inr w2" "clients w2 = [1, 0]"
     "buf (Send (heap w2 0)) = buf (Send (heap w1 0))"
     "ID (heap w2 1) = ''u2''" "Username_c (heap w2 1) = ''bob''"
     "\<not> is_closed (Send (heap w2 1))"
    using w1(2,4,5)
    by (simp add: handleWebSocket_def run_register_def sendCurrentLocations_def
          broadcastMessage_def log_printf_def make_chan_def Let_def)
  obtain w3 where w3: "run (Unregister 1) w2 = Inr w3" "clients w3 = [0]"
    using w2(2,6)
    by (simp add: run_unregister_def close_chan_def broadcastMessage_def log_printf_def
          set_Send_def Let_def)
  note n = notices_are_dropped [of first_client 0]
  note m = notices_are_dropped [of w2 1]
  have a: "logs w1 = [LogConnected ''u1'' ''alice'', LogBroadcastFull]"
    using n w1(1) by (simp add: first_client_def newHub_def)
  have b: "buf (Send (heap w3 0)) = buf (Send (heap w2 0))"
    "logs w3 = logs w2 @ [LogDisconnected ''u2'' ''bob'', LogBroadcastFull]"
    using m w3(1) w2(2,4,5) by simp_all
  show ?thesis using n w1 w2 w3 a b by auto
qed

subsection \<open>The inbound loop\<close>

lemma alice_connected_eval:
  "exec [Connect ''u1'' ''alice''] newHub = Inr alice_connected \<and>
   clients alice_connected = [0] \<and> readers alice_connected = [0] \<and> locations alice_connected = [] \<and>
   Username_c (heap alice_connected 0) = ''alice'' \<and> Send (heap alice_connected 0) = make_chan 256"
  by (simp add: alice_connected_def newHub_def handleWebSocket_def run_register_def
        sendCurrentLocations_def broadcastMessage_def log_printf_def Let_def)

lemma broadcastMessage_locations:
  "broadcastMessage parked message w = Inr w' \<Longrightarrow> locations w' = locations w"
  by (cases parked)
     (auto simp: broadcastMessage_def run_broadcast_def log_printf_def
        dest: broadcast_loop_locations)

text \<open>
  C7. In every state that a run of the server reaches, for every client whose \<open>readPump\<close>
  runs and every inbound \<open>location_update\<close> frame that decodes to a record, whatever
  user name the record carries: the turn of the loop returns and goes on, the store then
  maps the client's own user name to the record with its user name overwritten by the
  client's, and the entry of every other user name is what it was.
\<close>

theorem readPump_overwrites_username:
  assumes "exec es newHub = Inr w" "c \<in> set (readers w)"
  shows "\<exists>w'. readPump_step parked c (ReadOk (Envelope ''location_update'' (GoodLocation l))) w
           = Inr (Continue, w') \<and>
     map_of (locations w') (Username_c (heap w c)) = Some (l\<lparr>Username := Username_c (heap w c)\<rparr>) \<and>
     (\<forall>k. k \<noteq> Username_c (heap w c) \<longrightarrow> map_of (locations w') k = map_of (locations w) k)"
proof -
  let ?x = "Username_c (heap w c)"
  let ?ld = "l\<lparr>Username := ?x\<rparr>"
  let ?w1 = "log_printf (LogReceived ?x (Latitude ?ld) (Longitude ?ld)) w"
  have "hub_inv w" using assms(1) by (rule reachable_inv)
  then have "hub_inv ?w1" by (simp add: log_printf_def hub_inv_frame)
  from updateLocation_inv [OF this] obtain w' where
    u: "updateLocation parked ?x ?ld ?w1 = Inr w'" by blast
  then have "locations w' = AList.update ?x ?ld (locations w)"
    by (auto simp: updateLocation_def Let_def log_printf_def dest: broadcastMessage_locations)
  then have "map_of (locations w') = (map_of (locations w))(?x \<mapsto> ?ld)"
    by (simp add: update_conv')
  moreover have "readPump_step parked c (ReadOk (Envelope ''location_update'' (GoodLocation l))) w
           = Inr (Continue, w')"
    using u by (simp add: readPump_step_def Let_def log_printf_def)
  ultimately show ?thesis by auto
qed

theorem readPump_overwrites_username_witness:
  "exec [Connect ''u1'' ''alice''] newHub = Inr alice_connected \<and> 0 \<in> set (readers alice_connected) \<and>
   Username_c (heap alice_connected 0) = ''alice'' \<and>
   (\<exists>w'. readPump_step True 0 (ReadOk (Envelope ''location_update'' (GoodLocation
              \<lparr>Username = ''bob'', Latitude = 35, Longitude = 135, Timestamp = 1000\<rparr>))) alice_connected
            = Inr (Continue, w') \<and>
      map_of (locations w') ''alice''
        = Some \<lparr>Username = ''alice'', Latitude = 35, Longitude = 135, Timestamp = 1000\<rparr> \<and>
      map_of (locations w') ''bob'' = None)"
proof -
  note a = alice_connected_eval
  have r: "exec [Connect ''u1'' ''alice''] newHub = Inr alice_connected"
    and m: "0 \<in> set (readers alice_connected)" using a by simp_all
  from readPump_overwrites_username [OF r m, of True
      "\<lparr>Username = ''bob'', Latitude = 35, Longitude = 135, Timestamp = 1000\<rparr>"]
  show ?thesis using a by auto
qed

text \<open>
  C8, as the code has it. A frame that does not decode as a \<open>Message\<close> and a
  \<open>location_update\<close> whose data does not decode as a \<open>LocationData\<close> are treated alike:
  one line is logged and the loop goes on with the next read; the registered clients,
  the store, the queues and the running pumps are untouched.
\<close>

theorem decode_failures_are_skipped:
  "readPump c ((parked, ReadOk BadEnvelope) # rs) w
     = readPump c rs (log_printf LogUnmarshalMessage w) \<and>
   readPump c ((parked, ReadOk (Envelope ''location_update'' BadLocation)) # rs) w
     = readPump c rs (log_printf LogUnmarshalLocation w) \<and>
   clients (log_printf line w) = clients w \<and> locations (log_printf line w) = locations w \<and>
   heap (log_printf line w) = heap w \<and> readers (log_printf line w) = readers w"
  by (simp add: readPump_step_def log_printf_def)

text \<open>
  C8 as stated fails: after alice has connected, a frame that does not decode as a
  \<open>Message\<close> leaves her \<open>readPump\<close> in its loop, her client registered and her queue
  open, and the location update that follows is stored.
\<close>

theorem bad_envelope_keeps_session:
  "exec [Connect ''u1'' ''alice''] newHub = Inr alice_connected \<and>
   readPump 0 [(True, ReadOk BadEnvelope)] alice_connected
     = Inr (Continue, log_printf LogUnmarshalMessage alice_connected) \<and>
   clients (log_printf LogUnmarshalMessage alice_connected) = [0] \<and>
   readers (log_printf LogUnmarshalMessage alice_connected) = [0] \<and>
   \<not> is_closed (Send (heap (log_printf LogUnmarshalMessage alice_connected) 0)) \<and>
   \<not> isl (readPump 0 [(True, ReadOk BadEnvelope),
                       (True, ReadOk (Envelope ''location_update'' (GoodLocation loc_a)))]
             alice_connected) \<and>
   locations (snd (projr (readPump 0 [(True, ReadOk BadEnvelope),
                       (True, ReadOk (Envelope ''location_update'' (GoodLocation loc_a)))]
             alice_connected))) = [(''alice'', loc_a)]"
  using alice_connected_eval
  by (simp add: readPump_step_def log_printf_def make_chan_def updateLocation_def
        broadcastMessage_def run_broadcast_def select_send_def set_Send_def loc_a_def Let_def)

subsection \<open>The keys of the store\<close>

lemma fan_out_roomy:
  "roomy w \<Longrightarrow> clients (fan_out message (clients w) w) = clients w"
  by (simp add: fan_out_def roomy_def list_all_iff)

lemma fan_out_fields:
  "locations (fan_out message cs w) = locations w"
  "readers (fan_out message cs w) = readers w"
  "Username_c (heap (fan_out message cs w) c) = Username_c (heap w c)"
  by (simp_all add: fan_out_def deliver_to_def)

lemma keys_delete: "fst ` set (AList.delete k al) = fst ` set al - {k}"
proof -
  have "set (map fst (AList.delete k al)) = set (removeAll k (map fst al))"
    by (simp only: delete_keys)
  then show ?thesis by simp
qed

lemma handleWebSocket_fields:
  assumes "handleWebSocket uuid query_username w = Inr w'"
  shows "clients w' = List.insert (nextp w) (clients w)" "readers w' = nextp w # readers w"
    "locations w' = locations w"
    "\<And>d. d \<noteq> nextp w \<Longrightarrow> Username_c (heap w' d) = Username_c (heap w d)"
  using assms
  by (auto simp: handleWebSocket_def run_register_def sendCurrentLocations_def
        broadcastMessage_def log_printf_def select_send_def make_chan_def set_Send_def
        Let_def split: if_splits)

lemma run_unregister_fields:
  assumes "run_unregister c w = Inr w'" "c \<in> set (clients w)"
  shows "clients w' = removeAll c (clients w)" "readers w' = readers w"
    "locations w' = AList.delete (Username_c (heap w c)) (locations w)"
    "\<And>d. Username_c (heap w' d) = Username_c (heap w d)"
  using assms
  by (auto simp: run_unregister_def close_chan_def broadcastMessage_def log_printf_def
        set_Send_def Let_def split: if_splits)

lemma key_inv_connect:
  assumes "hub_inv w" "key_inv w" "handleWebSocket uuid query_username w = Inr w'"
  shows "key_inv w'"
proof -
  note f = handleWebSocket_fields [OF assms(3)]
  have fresh: "nextp w \<notin> set (clients w)" using assms(1) by (auto simp: hub_inv_def)
  have "set (readers w') \<subseteq> set (clients w')"
    using assms(2) f(1,2) by (auto simp: key_inv_def)
  moreover have "\<exists>c\<in>set (clients w'). Username_c (heap w' c) = k"
    if "k \<in> fst ` set (locations w')" for k
  proof -
    from that assms(2) f(3) obtain c where c: "c \<in> set (clients w)" "Username_c (heap w c) = k"
      unfolding key_inv_def by auto
    then have "c \<noteq> nextp w" using fresh by auto
    then have "Username_c (heap w' c) = k" using f(4) c(2) by simp
    moreover have "c \<in> set (clients w')" using c(1) f(1) by simp
    ultimately show ?thesis by blast
  qed
  ultimately show ?thesis unfolding key_inv_def by blast
qed

lemma key_inv_unregister:
  assumes "key_inv w" "run_unregister c w = Inr w'"
  shows "key_inv (w'\<lparr>readers := removeAll c (readers w')\<rparr>)"
proof (cases "c \<in> set (clients w)")
  case False
  then have "w' = w" using assms(2) by (simp add: run_unregister_def)
  then show ?thesis using assms(1) by (auto simp: key_inv_def)
next
  case True
  note f = run_unregister_fields [OF assms(2) True]
  have "set (removeAll c (readers w')) \<subseteq> set (clients w')"
    using assms(1) f(1,2) by (auto simp: key_inv_def)
  moreover have "\<exists>d\<in>set (clients w'). Username_c (heap w' d) = k"
    if "k \<in> fst ` set (locations w')" for k
  proof -
    have "fst ` set (locations w') = fst ` set (locations w) - {Username_c (heap w c)}"
      unfolding f(3) by (rule keys_delete)
    with that have k: "k \<in> fst ` set (locations w)" "k \<noteq> Username_c (heap w c)"
      by simp_all
    then obtain d where d: "d \<in> set (clients w)" "Username_c (heap w d) = k"
      using assms(1) unfolding key_inv_def by auto
    then have "d \<noteq> c" using k(2) by auto
    then have "d \<in> set (clients w')" using d(1) f(1) by simp
    then show ?thesis using d(2) f(4) by auto
  qed
  ultimately show ?thesis unfolding key_inv_def by simp
qed

lemma key_inv_logs: "key_inv (w\<lparr>logs := lg\<rparr>) = key_inv w"
  by (simp add: key_inv_def)

lemma key_inv_stored:
  assumes "key_inv w" "c \<in> set (readers w)"
  shows "key_inv (stored c l w)"
proof -
  have c: "c \<in> set (clients w)" using assms by (auto simp: key_inv_def)
  have "fst ` set (locations (stored c l w)) = insert (Username_c (heap w c)) (fst ` set (locations w))"
    by (simp add: stored_def log_printf_def dom_update)
  moreover have "clients (stored c l w) = clients w" "readers (stored c l w) = readers w"
    "heap (stored c l w) = heap w"
    by (simp_all add: stored_def log_printf_def)
  ultimately show ?thesis using assms(1) c unfolding key_inv_def by auto
qed

lemma key_inv_fan_out:
  assumes "key_inv w" "roomy w"
  shows "key_inv (fan_out message (clients w) w)"
  using assms fan_out_roomy [OF assms(2), of message]
  by (simp add: key_inv_def fan_out_fields)

lemma roomy_stored: "roomy (stored c l w) = roomy w"
  by (simp add: roomy_def stored_def log_printf_def has_room_def [abs_def])

lemma step_location_dropped:
  "c \<in> set (readers w) \<Longrightarrow>
   step (Receive c False (ReadOk (Envelope ''location_update'' (GoodLocation l)))) w =
     Inr (log_printf LogBroadcastFull (stored c l w))"
  by (simp add: readPump_step_def updateLocation_def broadcastMessage_def log_printf_def
        stored_def Let_def)

lemma key_inv_step:
  assumes "hub_inv w" "key_inv w" "fans_out e w \<longrightarrow> roomy w" "step e w = Inr w'"
  shows "key_inv w'"
proof (cases e)
  case (Connect uuid query_username)
  then show ?thesis using assms key_inv_connect by simp
next
  case (Deliver c)
  then have "w' = writePump_step c w" using assms(4) by simp
  then show ?thesis using assms(2)
    by (auto simp: writePump_step_def set_Send_def key_inv_def split: list.splits)
next
  case (Receive c parked r)
  show ?thesis
  proof (cases "c \<in> set (readers w)")
    case False
    then show ?thesis using Receive assms(2,4) by simp
  next
    case True
    show ?thesis
    proof (cases r)
      case (ReadError unexpected)
      let ?w1 = "if unexpected then log_printf LogWebSocketError w else w"
      have k1: "key_inv ?w1" using assms(2) by (simp add: log_printf_def key_inv_logs)
      have "hub_inv ?w1" using assms(1) by (simp add: log_printf_def hub_inv_frame)
      from run_unregister_inv [OF this, of c] obtain w2 where
        w2: "run_unregister c ?w1 = Inr w2" by blast
      have "w' = w2\<lparr>readers := removeAll c (readers w2)\<rparr>"
        using Receive True ReadError assms(4) w2 by (simp add: readPump_step_def)
      then show ?thesis using key_inv_unregister [OF k1 w2] by simp
    next
      case (ReadOk message)
      show ?thesis
      proof (cases message)
        case BadEnvelope
        then show ?thesis using Receive True ReadOk assms(2,4)
          by (auto simp: readPump_step_def log_printf_def key_inv_logs)
      next
        case (Envelope msg_type decoded)
        show ?thesis
        proof (cases "msg_type = ''location_update''")
          case False
          then show ?thesis using Receive True ReadOk Envelope assms(2,4)
            by (auto simp: readPump_step_def)
        next
          case lu: True
          show ?thesis
          proof (cases decoded)
            case BadLocation
            then show ?thesis using Receive True ReadOk Envelope lu assms(2,4)
              by (auto simp: readPump_step_def log_printf_def key_inv_logs)
          next
            case (GoodLocation l)
            have ks: "key_inv (stored c l w)" by (rule key_inv_stored [OF assms(2) True])
            show ?thesis
            proof (cases parked)
              case False
              then have "w' = log_printf LogBroadcastFull (stored c l w)"
                using Receive ReadOk Envelope lu GoodLocation assms(4)
                  step_location_dropped [OF True, of l] by simp
              then show ?thesis using ks by (simp add: log_printf_def key_inv_logs)
            next
              case p: True
              then have e: "e = Receive c True (ReadOk (Envelope ''location_update'' (GoodLocation l)))"
                using Receive ReadOk Envelope lu GoodLocation by simp
              have "roomy w" using assms(3) e True by simp
              then have r: "roomy (stored c l w)" by (simp add: roomy_stored)
              have "w' = fan_out (marshal (location_update (l\<lparr>Username := Username_c (heap w c)\<rparr>)))
                           (clients w) (stored c l w)"
                using step_location_update [OF assms(1) True, of l] assms(4) e by simp
              moreover have "clients (stored c l w) = clients w"
                by (simp add: stored_def log_printf_def)
              ultimately show ?thesis using key_inv_fan_out [OF ks r] by simp
            qed
          qed
        qed
      qed
    qed
  qed
qed

lemma key_inv_exec:
  "hub_inv w \<Longrightarrow> key_inv w \<Longrightarrow> calm es w \<Longrightarrow> exec es w = Inr w' \<Longrightarrow> key_inv w'"
proof (induction es arbitrary: w)
  case Nil
  then show ?case by simp
next
  case (Cons e es)
  from step_inv [OF Cons.prems(1), of e] obtain w1 where
    s: "step e w = Inr w1" "hub_inv w1" by blast
  have k1: "key_inv w1"
    using key_inv_step [OF Cons.prems(1,2) _ s(1)] Cons.prems(3) by simp
  have "calm es w1" using Cons.prems(3) s(1) by simp
  moreover have "exec es w1 = Inr w'" using Cons.prems(4) s(1) by simp
  ultimately show ?case using Cons.IH [OF s(2) k1] by simp
qed

lemma key_inv_newHub: "key_inv newHub"
  by (simp add: key_inv_def newHub_def)

text \<open>
  C4, as the code has it. In every state reached by a calm run of the server (no
  broadcast of the run meets a full queue), every key of the store is the user name of
  a registered client. The converse is not claimed.
\<close>

theorem store_keys_are_registered:
  assumes "exec es newHub = Inr w" "calm es newHub"
  shows "\<forall>k\<in>fst ` set (locations w). \<exists>c\<in>set (clients w). Username_c (heap w c) = k"
  using key_inv_exec [OF hub_inv_newHub key_inv_newHub assms(2,1)]
  by (simp add: key_inv_def)

theorem store_keys_are_registered_witness:
  "calm [Connect ''u1'' ''alice'',
         Receive 0 True (ReadOk (Envelope ''location_update'' (GoodLocation loc_b)))] newHub \<and>
   (\<exists>w. exec [Connect ''u1'' ''alice'',
         Receive 0 True (ReadOk (Envelope ''location_update'' (GoodLocation loc_b)))] newHub = Inr w \<and>
      locations w = [(''alice'', loc_b)] \<and> clients w = [0] \<and>
      (\<exists>c\<in>set (clients w). Username_c (heap w c) = ''alice''))"
proof -
  let ?e1 = "Connect ''u1'' ''alice''"
  let ?e2 = "Receive 0 True (ReadOk (Envelope ''location_update'' (GoodLocation loc_b)))"
  let ?w = "fan_out (marshal (location_update (loc_b\<lparr>Username := Username_c (heap alice_connected 0)\<rparr>)))
              (clients alice_connected) (stored 0 loc_b alice_connected)"
  note a = alice_connected_eval
  have s1: "step ?e1 newHub = Inr alice_connected"
    using a by (auto split: sum.splits)
  have inv: "hub_inv alice_connected" using a reachable_inv by blast
  have rd: "0 \<in> set (readers alice_connected)" using a by simp
  have s2: "step ?e2 alice_connected = Inr ?w"
    by (rule step_location_update [OF inv rd])
  have r: "roomy alice_connected" using a by (simp add: roomy_def has_room_def make_chan_def)
  have c: "calm [?e1, ?e2] newHub" using s1 s2 r by simp
  have e: "exec [?e1, ?e2] newHub = Inr ?w" using s1 s2 by simp
  have f: "locations ?w = [(''alice'', loc_b)]" "clients ?w = [0]"
    using a by (simp_all add: fan_out_def stored_def log_printf_def has_room_def make_chan_def
        loc_b_def)
  from store_keys_are_registered [OF e c] f(1)
  have "\<exists>c\<in>set (clients ?w). Username_c (heap ?w c) = ''alice''" by simp
  then show ?thesis using c e f by blast
qed

text \<open>
  C4 as stated fails: after alice has connected her client is registered and the store
  has no key for her.
\<close>

theorem registered_without_key:
  "exec [Connect ''u1'' ''alice''] newHub = Inr alice_connected \<and>
   0 \<in> set (clients alice_connected) \<and>
   Username_c (heap alice_connected 0) = ''alice'' \<and>
   ''alice'' \<notin> fst ` set (locations alice_connected)"
  using alice_connected_eval by simp

subsection \<open>Hub.updateLocation\<close>

lemma alice_saturated_eval:
  "exec (Connect ''u1'' ''alice'' #
       replicate 256 (Receive 0 True (ReadOk (Envelope ''location_update'' (GoodLocation loc_a)))))
       newHub = Inr alice_saturated \<and>
   clients alice_saturated = [0] \<and>
   Send (heap alice_saturated 0) =
     \<lparr>buf = replicate 256 (marshal (location_update loc_a)), capacity = 256, is_closed = False\<rparr>"
proof -
  let ?ev = "Receive 0 True (ReadOk (Envelope ''location_update'' (GoodLocation loc_a)))"
  note a = alice_connected_eval
  have inv: "hub_inv alice_connected" using a reachable_inv by blast
  have "\<forall>d\<in>set (clients alice_connected).
      length (buf (Send (heap alice_connected d))) + 256 \<le> capacity (Send (heap alice_connected d))"
    using a by (simp add: make_chan_def)
  from exec_fill [OF inv _ this, of 0 loc_a] obtain w1 where w1:
    "exec (replicate 256 ?ev) alice_connected = Inr w1" "clients w1 = clients alice_connected"
    "\<forall>d\<in>set (clients alice_connected). Send (heap w1 d) =
        (Send (heap alice_connected d))\<lparr>buf := buf (Send (heap alice_connected d)) @
          replicate 256 (marshal (location_update (loc_a\<lparr>Username := Username_c (heap alice_connected 0)\<rparr>)))\<rparr>"
    using a by auto
  have "exec (Connect ''u1'' ''alice'' # replicate 256 ?ev) newHub = Inr w1"
    using a w1(1) exec_append [of "[Connect ''u1'' ''alice'']" "replicate 256 ?ev" newHub]
    by (simp only: append_Cons append_Nil sum.case)
  moreover from this have "alice_saturated = w1" by (simp only: alice_saturated_def sum.sel)
  moreover have "loc_a\<lparr>Username := ''alice''\<rparr> = loc_a" by (simp add: loc_a_def)
  ultimately show ?thesis using w1(2,3) a by (simp add: make_chan_def)
qed

text \<open>
  C3, as the code has it. In every state that a run of the server reaches,
  \<open>updateLocation\<close> returns and the store then maps the user name to the record, all
  other entries unchanged. If the hub waits in its \<open>select\<close> at that moment, every
  registered client whose queue has room gets a \<open>location_update\<close> message with the
  record appended to its queue, and every registered client whose queue is full is closed
  and removed; if the hub does not wait, the message is dropped and no client or queue
  changes. No case of \<open>Hub.run\<close> adds a record to the store or changes one.
\<close>

theorem updateLocation_effect:
  assumes "exec es newHub = Inr w"
  shows "\<exists>w'. updateLocation parked username location w = Inr w' \<and>
     map_of (locations w') = (map_of (locations w))(username \<mapsto> location) \<and>
     (if parked
      then (\<forall>c\<in>set (clients w).
              if has_room w c
              then c \<in> set (clients w') \<and>
                   Send (heap w' c) = (Send (heap w c))
                     \<lparr>buf := buf (Send (heap w c)) @ [marshal (location_update location)]\<rparr>
              else c \<notin> set (clients w') \<and>
                   Send (heap w' c) = (Send (heap w c))\<lparr>is_closed := True\<rparr>)
      else clients w' = clients w \<and> heap w' = heap w) \<and>
     (\<forall>ev w2. run ev w = Inr w2 \<longrightarrow>
        (\<forall>k v. map_of (locations w2) k = Some v \<longrightarrow> map_of (locations w) k = Some v))"
proof -
  let ?w1 = "w\<lparr>locations := AList.update username location (locations w)\<rparr>"
  let ?m = "marshal (location_update location)"
  have inv: "hub_inv w" using assms by (rule reachable_inv)
  then have inv1: "hub_inv ?w1" by (simp add: hub_inv_frame)
  have upd: "\<exists>w'. updateLocation parked username location w = Inr w' \<and>
     map_of (locations w') = (map_of (locations w))(username \<mapsto> location) \<and>
     (if parked
      then (\<forall>c\<in>set (clients w).
              if has_room w c
              then c \<in> set (clients w') \<and>
                   Send (heap w' c) = (Send (heap w c))\<lparr>buf := buf (Send (heap w c)) @ [?m]\<rparr>
              else c \<notin> set (clients w') \<and>
                   Send (heap w' c) = (Send (heap w c))\<lparr>is_closed := True\<rparr>)
      else clients w' = clients w \<and> heap w' = heap w)"
  proof (cases parked)
    case True
    have "updateLocation parked username location w = Inr (fan_out ?m (clients ?w1) ?w1)"
      using True run_broadcast_fan_out [OF inv1, of ?m]
      by (simp add: updateLocation_def broadcastMessage_def Let_def)
    then show ?thesis using True
      by (auto simp: fan_out_def deliver_to_def has_room_def update_conv')
  next
    case False
    then show ?thesis
      by (simp add: updateLocation_def broadcastMessage_def log_printf_def Let_def update_conv')
  qed
  have only: "map_of (locations w2) k = Some v \<longrightarrow> map_of (locations w) k = Some v"
    if "run ev w = Inr w2" for ev w2 k v
  proof (cases ev)
    case (Register c)
    then have "locations w2 = locations w" using that
      by (auto simp: run_register_def sendCurrentLocations_def select_send_def close_chan_def
            broadcastMessage_def log_printf_def set_Send_def Let_def split: if_splits)
    then show ?thesis by simp
  next
    case (Unregister c)
    then have "locations w2 = locations w \<or>
        locations w2 = AList.delete (Username_c (heap w c)) (locations w)"
      using that
      by (auto simp: run_unregister_def close_chan_def broadcastMessage_def log_printf_def
            set_Send_def Let_def split: if_splits)
    then show ?thesis by (auto simp: delete_conv' split: if_splits)
  next
    case (Broadcast message)
    then have "locations w2 = locations w" using that
      by (simp add: run_broadcast_def broadcast_loop_locations)
    then show ?thesis by simp
  qed
  from upd only show ?thesis by blast
qed

theorem updateLocation_effect_witness:
  "\<exists>w w' w2. exec [Connect ''u1'' ''alice'', Connect ''u2'' ''bob''] newHub = Inr w \<and>
     clients w = [1, 0] \<and> has_room w 0 \<and> has_room w 1 \<and>
     updateLocation True ''alice'' loc_a w = Inr w' \<and>
     map_of (locations w') ''alice'' = Some loc_a \<and>
     buf (Send (heap w' 0)) = [marshal (location_update loc_a)] \<and>
     buf (Send (heap w' 1)) = [marshal (location_update loc_a)] \<and>
     run (Unregister 0) w' = Inr w2 \<and> locations w2 = []"
proof -
  obtain w where w: "exec [Connect ''u1'' ''alice'', Connect ''u2'' ''bob''] newHub = Inr w"
    "clients w = [1, 0]" "Send (heap w 0) = make_chan 256" "Send (heap w 1) = make_chan 256"
    "Username_c (heap w 0) = ''alice''" "locations w = []"
    using two_connected by blast
  have room: "has_room w 0" "has_room w 1" using w by (simp_all add: has_room_def make_chan_def)
  from updateLocation_effect [OF w(1), of True "''alice''" loc_a] obtain w' where w':
    "updateLocation True ''alice'' loc_a w = Inr w'"
    "map_of (locations w') = (map_of (locations w))(''alice'' \<mapsto> loc_a)"
    "\<forall>c\<in>set (clients w).
              if has_room w c
              then c \<in> set (clients w') \<and>
                   Send (heap w' c) = (Send (heap w c))
                     \<lparr>buf := buf (Send (heap w c)) @ [marshal (location_update loc_a)]\<rparr>
              else c \<notin> set (clients w') \<and>
                   Send (heap w' c) = (Send (heap w c))\<lparr>is_closed := True\<rparr>"
    by auto
  have q: "0 \<in> set (clients w')" "Send (heap w' 0) = (Send (heap w 0))
                     \<lparr>buf := buf (Send (heap w 0)) @ [marshal (location_update loc_a)]\<rparr>"
     "Send (heap w' 1) = (Send (heap w 1))
                     \<lparr>buf := buf (Send (heap w 1)) @ [marshal (location_update loc_a)]\<rparr>"
    using w'(3) w(2) room by auto
  have un: "Username_c (heap w' 0) = ''alice''" "locations w' = [(''alice'', loc_a)]"
    using w'(1) w(5,6) run_broadcast_fan_out [of "w\<lparr>locations := AList.update ''alice'' loc_a (locations w)\<rparr>"
        "marshal (location_update loc_a)"] reachable_inv [OF w(1)]
    by (auto simp: updateLocation_def broadcastMessage_def Let_def hub_inv_frame fan_out_def
          deliver_to_def)
  obtain w2 where w2: "run (Unregister 0) w' = Inr w2" "locations w2 = []"
    using q(1,2) w(3) un
    by (simp add: run_unregister_def close_chan_def broadcastMessage_def log_printf_def
          set_Send_def Let_def make_chan_def)
  show ?thesis
    using w w' q room w2 by (intro exI [of _ w] exI [of _ w'] exI [of _ w2]) (simp add: make_chan_def)
qed

text \<open>
  C3 as stated fails twice. While the hub is busy, a location update of alice is stored
  but her registered client receives nothing. And when her queue of 256 is full, the
  update is stored, the hub takes the message, and her client does not receive it.
\<close>

theorem updateLocation_not_received:
  "exec [Connect ''u1'' ''alice''] newHub = Inr alice_connected \<and>
   clients alice_connected = [0] \<and>
   \<not> isl (updateLocation False ''alice'' loc_b alice_connected) \<and>
   clients (projr (updateLocation False ''alice'' loc_b alice_connected)) = [0] \<and>
   buf (Send (heap (projr (updateLocation False ''alice'' loc_b alice_connected)) 0)) = [] \<and>
   exec (Connect ''u1'' ''alice'' #
       replicate 256 (Receive 0 True (ReadOk (Envelope ''location_update'' (GoodLocation loc_a)))))
       newHub = Inr alice_saturated \<and>
   clients alice_saturated = [0] \<and>
   \<not> isl (updateLocation True ''alice'' loc_b alice_saturated) \<and>
   marshal (location_update loc_b)
     \<notin> set (buf (Send (heap (projr (updateLocation True ''alice'' loc_b alice_saturated)) 0)))"
proof -
  note a = alice_connected_eval
  note s = alice_saturated_eval
  have 1: "updateLocation False ''alice'' loc_b alice_connected
      = Inr (log_printf LogBroadcastFull
              (alice_connected\<lparr>locations := AList.update ''alice'' loc_b (locations alice_connected)\<rparr>))"
    by (simp add: updateLocation_def broadcastMessage_def Let_def)
  have 2: "updateLocation True ''alice'' loc_b alice_saturated
      = Inr ((set_Send 0 ((Send (heap alice_saturated 0))\<lparr>is_closed := True\<rparr>)
               (alice_saturated\<lparr>locations := AList.update ''alice'' loc_b (locations alice_saturated)\<rparr>))
              \<lparr>clients := []\<rparr>)"
    using s
    by (simp add: updateLocation_def broadcastMessage_def run_broadcast_def select_send_def
          close_chan_def set_Send_def Let_def)
  have ne: "marshal (location_update loc_b) \<noteq> marshal (location_update loc_a)"
    by (simp add: marshal_def location_update_def loc_a_def loc_b_def)
  show ?thesis
    unfolding 1 2 using a s ne
    by (simp add: log_printf_def set_Send_def make_chan_def)
qed

subsection \<open>The notices of the register and unregister cases\<close>

text \<open>
  C2. The claim asks that all registered clients receive the \<open>user_connected\<close> notice
  of a registration. Evaluated: bob connects, then alice connects while the store is
  empty. No snapshot is sent, and the queue of bob stays empty: the notice about alice
  is dropped by \<open>broadcastMessage\<close>, as the log shows.
\<close>

theorem join_notice_not_delivered:
  "exec [Connect ''u1'' ''bob'', Connect ''u2'' ''alice''] newHub = Inr bob_alice \<and>
   clients bob_alice = [1, 0] \<and>
   Username_c (heap bob_alice 0) = ''bob'' \<and> Username_c (heap bob_alice 1) = ''alice'' \<and>
   locations bob_alice = [] \<and>
   buf (Send (heap bob_alice 0)) = [] \<and> buf (Send (heap bob_alice 1)) = [] \<and>
   logs bob_alice = [LogConnected ''u1'' ''bob'', LogBroadcastFull,
                     LogConnected ''u2'' ''alice'', LogBroadcastFull]"
  by (simp add: bob_alice_def newHub_def handleWebSocket_def run_register_def
        sendCurrentLocations_def broadcastMessage_def log_printf_def make_chan_def Let_def)

text \<open>
  C6. The claim asks that the first unregistration of a registered client broadcasts
  \<open>user_disconnected\<close> once. Evaluated: bob and alice connect, then the read of alice
  fails. Her client is removed and her queue closed, a second unregistration changes
  nothing, but the queue of bob stays empty: the notice is dropped by
  \<open>broadcastMessage\<close>, as the log shows.
\<close>

theorem leave_notice_not_delivered:
  "exec [Connect ''u1'' ''bob'', Connect ''u2'' ''alice'', Receive 1 True (ReadError False)] newHub
     = Inr alice_left \<and>
   clients alice_left = [0] \<and> Username_c (heap alice_left 0) = ''bob'' \<and>
   is_closed (Send (heap alice_left 1)) \<and>
   buf (Send (heap alice_left 0)) = [] \<and>
   logs alice_left = [LogConnected ''u1'' ''bob'', LogBroadcastFull,
                      LogConnected ''u2'' ''alice'', LogBroadcastFull,
                      LogDisconnected ''u2'' ''alice'', LogBroadcastFull] \<and>
   run (Unregister 1) alice_left = Inr alice_left"
  by (simp add: alice_left_def newHub_def handleWebSocket_def run_register_def
        sendCurrentLocations_def broadcastMessage_def log_printf_def make_chan_def Let_def
        readPump_step_def run_unregister_def close_chan_def set_Send_def)

text \<open>Unregistering is idempotent, whatever the state.\<close>

lemma unregister_idempotent:
  "c \<notin> set (clients w) \<Longrightarrow> run (Unregister c) w = Inr w"
  "run (Unregister c) w = Inr w' \<Longrightarrow> run (Unregister c) w' = Inr w'"
proof -
  show "c \<notin> set (clients w) \<Longrightarrow> run (Unregister c) w = Inr w"
    by (simp add: run_unregister_def)
  assume r: "run (Unregister c) w = Inr w'"
  then have "c \<notin> set (clients w')"
    by (auto simp: run_unregister_def close_chan_def broadcastMessage_def log_printf_def
          set_Send_def Let_def split: if_splits)
  then show "run (Unregister c) w' = Inr w'" by (simp add: run_unregister_def)
qed

subsection \<open>Saturation and the loop of the hub\<close>

text \<open>
  C5. In every state that a run of the server reaches, a saturated queue costs at most
  its own client the registration, and the loop of the hub never fails: every further
  run returns, the unregister case returns, and the broadcast case returns with every
  registered client that has room still registered, its queue open and the message
  appended, every registered client whose queue is full removed and closed, and all
  else unchanged. The snapshot send of a registration never meets a full queue: the new
  client is registered with an open queue that has room, no other client is touched,
  and every broadcast after it returns.
\<close>

theorem saturation_is_isolated:
  assumes "exec es newHub = Inr w"
  shows "(\<exists>w'. exec fs w = Inr w') \<and>
     (\<exists>w'. run (Unregister c) w = Inr w') \<and>
     (\<exists>w'. run (Broadcast message) w = Inr w' \<and>
        (\<forall>d\<in>set (clients w).
           if has_room w d
           then d \<in> set (clients w') \<and> \<not> is_closed (Send (heap w' d)) \<and>
                buf (Send (heap w' d)) = buf (Send (heap w d)) @ [message]
           else d \<notin> set (clients w') \<and> is_closed (Send (heap w' d))) \<and>
        (\<forall>d. d \<notin> set (clients w) \<longrightarrow> heap w' d = heap w d) \<and>
        locations w' = locations w \<and> readers w' = readers w) \<and>
     (\<exists>w'. handleWebSocket uuid query_username w = Inr w' \<and>
        clients w' = nextp w # clients w \<and>
        has_room w' (nextp w) \<and> \<not> is_closed (Send (heap w' (nextp w))) \<and>
        (\<forall>d. d \<noteq> nextp w \<longrightarrow> heap w' d = heap w d) \<and>
        (\<forall>m. \<exists>w''. run (Broadcast m) w' = Inr w''))"
proof -
  have inv: "hub_inv w" using assms by (rule reachable_inv)
  have 1: "\<exists>w'. exec fs w = Inr w'" using exec_inv [OF inv, of fs] by blast
  have 2: "\<exists>w'. run (Unregister c) w = Inr w'" using run_unregister_inv [OF inv, of c] by auto
  have "run (Broadcast message) w = Inr (fan_out message (clients w) w)"
    using inv by (simp add: run_broadcast_fan_out)
  moreover have "\<forall>d\<in>set (clients w). \<not> is_closed (Send (heap w d))"
    using inv by (simp add: hub_inv_def)
  ultimately have 3: "\<exists>w'. run (Broadcast message) w = Inr w' \<and>
        (\<forall>d\<in>set (clients w).
           if has_room w d
           then d \<in> set (clients w') \<and> \<not> is_closed (Send (heap w' d)) \<and>
                buf (Send (heap w' d)) = buf (Send (heap w d)) @ [message]
           else d \<notin> set (clients w') \<and> is_closed (Send (heap w' d))) \<and>
        (\<forall>d. d \<notin> set (clients w) \<longrightarrow> heap w' d = heap w d) \<and>
        locations w' = locations w \<and> readers w' = readers w"
    by (auto simp: fan_out_def deliver_to_def)
  from handleWebSocket_inv [OF inv, of uuid query_username] obtain w' where
    h: "handleWebSocket uuid query_username w = Inr w'" and inv': "hub_inv w'" by blast
  have fresh: "nextp w \<notin> set (clients w)" using inv by (auto simp: hub_inv_def)
  have f: "clients w' = nextp w # clients w" "has_room w' (nextp w)"
    "\<not> is_closed (Send (heap w' (nextp w)))" "\<forall>d. d \<noteq> nextp w \<longrightarrow> heap w' d = heap w d"
    using h fresh
    by (auto simp: handleWebSocket_def run_register_def sendCurrentLocations_def
          broadcastMessage_def log_printf_def select_send_def make_chan_def set_Send_def
          has_room_def Let_def List.insert_def split: if_splits)
  have "\<forall>m. \<exists>w''. run (Broadcast m) w' = Inr w''"
    using inv' by (simp add: run_broadcast_fan_out)
  with h f have 4: "\<exists>w'. handleWebSocket uuid query_username w = Inr w' \<and>
        clients w' = nextp w # clients w \<and>
        has_room w' (nextp w) \<and> \<not> is_closed (Send (heap w' (nextp w))) \<and>
        (\<forall>d. d \<noteq> nextp w \<longrightarrow> heap w' d = heap w d) \<and>
        (\<forall>m. \<exists>w''. run (Broadcast m) w' = Inr w'')" by blast
  from 1 2 3 4 show ?thesis by blast
qed

theorem saturation_is_isolated_witness:
  "exec (Connect ''u1'' ''alice'' #
       replicate 256 (Receive 0 True (ReadOk (Envelope ''location_update'' (GoodLocation loc_a)))))
       newHub = Inr alice_saturated \<and>
   clients alice_saturated = [0] \<and> \<not> has_room alice_saturated 0 \<and>
   nextp alice_saturated \<noteq> 0 \<and>
   (\<exists>w2 w3. handleWebSocket ''u2'' ''bob'' alice_saturated = Inr w2 \<and>
      exec ((Connect ''u1'' ''alice'' #
        replicate 256 (Receive 0 True (ReadOk (Envelope ''location_update'' (GoodLocation loc_a)))))
        @ [Connect ''u2'' ''bob'']) newHub = Inr w2 \<and>
      clients w2 = [nextp alice_saturated, 0] \<and>
      \<not> has_room w2 0 \<and> has_room w2 (nextp alice_saturated) \<and>
      run (Broadcast (marshal (location_update loc_b))) w2 = Inr w3 \<and>
      0 \<notin> set (clients w3) \<and> is_closed (Send (heap w3 0)) \<and>
      nextp alice_saturated \<in> set (clients w3) \<and>
      \<not> is_closed (Send (heap w3 (nextp alice_saturated))) \<and>
      buf (Send (heap w3 (nextp alice_saturated)))
        = buf (Send (heap w2 (nextp alice_saturated))) @ [marshal (location_update loc_b)])"
proof -
  let ?es = "Connect ''u1'' ''alice'' #
       replicate 256 (Receive 0 True (ReadOk (Envelope ''location_update'' (GoodLocation loc_a))))"
  let ?m = "marshal (location_update loc_b)"
  let ?n = "nextp alice_saturated"
  note s = alice_saturated_eval
  have r: "exec ?es newHub = Inr alice_saturated" using s by simp
  have full: "\<not> has_room alice_saturated 0" using s by (simp add: has_room_def)
  have "hub_inv alice_saturated" using r by (rule reachable_inv)
  then have n0: "?n \<noteq> 0" using s by (auto simp: hub_inv_def)
  from saturation_is_isolated [OF r, of "[]" 0 ?m "''u2''" "''bob''"] obtain w2 where w2:
    "handleWebSocket ''u2'' ''bob'' alice_saturated = Inr w2"
    "clients w2 = ?n # clients alice_saturated" "has_room w2 ?n"
    "\<forall>d. d \<noteq> ?n \<longrightarrow> heap w2 d = heap alice_saturated d"
    by blast
  have r2: "exec (?es @ [Connect ''u2'' ''bob'']) newHub = Inr w2"
    using r w2(1) by (simp only: exec_append exec.simps step.simps sum.case)
  have full2: "\<not> has_room w2 0" using full w2(4) n0 by (simp add: has_room_def)
  from saturation_is_isolated [OF r2, of "[]" 0 ?m "''u3''" "''carol''"] obtain w3 where w3:
    "run (Broadcast ?m) w2 = Inr w3"
    "\<forall>d\<in>set (clients w2).
           if has_room w2 d
           then d \<in> set (clients w3) \<and> \<not> is_closed (Send (heap w3 d)) \<and>
                buf (Send (heap w3 d)) = buf (Send (heap w2 d)) @ [?m]
           else d \<notin> set (clients w3) \<and> is_closed (Send (heap w3 d))"
    by blast
  have a: "0 \<notin> set (clients w3) \<and> is_closed (Send (heap w3 0))"
    using w3(2) w2(2) full2 s by auto
  have b: "?n \<in> set (clients w3) \<and> \<not> is_closed (Send (heap w3 ?n)) \<and>
      buf (Send (heap w3 ?n)) = buf (Send (heap w2 ?n)) @ [?m]"
    using w3(2) w2(2,3) by auto
  show ?thesis
    using r s full n0 w2(1,2,3) r2 full2 w3(1) a b
    by (intro conjI exI [of _ w2] exI [of _ w3]) simp_all
qed

end
